theory Spec2Isabelle
  imports Complex_Main "HOL-Library.Multiset"
begin

section \<open>Values of the host language\<close>

text \<open>
  A JavaScript number is modelled as a \<^typ>\<open>real\<close> where it carries a measurement and as
  an \<^typ>\<open>int\<close> where the program only counts with it (identifiers, the query limit, the
  milliseconds of a \<open>Date\<close>). The identifier counters start at 1 and grow by one per
  call; a double represents every such value exactly until \<open>2^53\<close> calls have been made,
  and the model counts in unbounded integers.

  A value that may be \<open>undefined\<close> or \<open>null\<close> is a \<open>nullish\<close>; \<open>a ?? b\<close> is
  \<open>nullish_or a b\<close>.
\<close>

datatype 'a nullish = Undefined | Null | Value 'a

fun nullish_or :: "'a nullish \<Rightarrow> 'a \<Rightarrow> 'a" where
  "nullish_or (Value v) d = v"
| "nullish_or Undefined d = d"
| "nullish_or Null d = d"

text \<open>
  A \<open>Map<number, V>\<close> keeps its entries in insertion order: \<open>set\<close> replaces the value of
  a key that is present where it stands and appends a new key at the end; \<open>values()\<close>
  walks the entries in that order.
\<close>

type_synonym 'v js_map = "(int \<times> 'v) list"

fun Map_set :: "int \<Rightarrow> 'v \<Rightarrow> 'v js_map \<Rightarrow> 'v js_map" where
  "Map_set k v [] = [(k, v)]"
| "Map_set k v (p # ps) = (if fst p = k then (k, v) # ps else p # Map_set k v ps)"

definition Map_get :: "'v js_map \<Rightarrow> int \<Rightarrow> 'v option" where
  "Map_get m k = map_of m k"

definition Map_values :: "'v js_map \<Rightarrow> 'v list" where
  "Map_values m = map snd m"

text \<open>
  \<open>Array.prototype.sort(cmp)\<close> is a stable sort: \<open>a\<close> stays before \<open>b\<close> unless
  \<open>cmp(a, b) > 0\<close>. Insertion from the right end gives exactly that order.
\<close>

fun insort_cmp :: "('a \<Rightarrow> 'a \<Rightarrow> int) \<Rightarrow> 'a \<Rightarrow> 'a list \<Rightarrow> 'a list" where
  "insort_cmp cmp x [] = [x]"
| "insort_cmp cmp x (y # ys) =
     (if cmp x y \<le> 0 then x # y # ys else y # insort_cmp cmp x ys)"

definition Array_sort :: "('a \<Rightarrow> 'a \<Rightarrow> int) \<Rightarrow> 'a list \<Rightarrow> 'a list" where
  "Array_sort cmp xs = foldr (insort_cmp cmp) xs []"

text \<open>
  \<open>xs.slice(0, end)\<close>: a negative \<open>end\<close> counts from the end of the array, and the
  result is clamped to the array.
\<close>

definition Array_slice0 :: "'a list \<Rightarrow> int \<Rightarrow> 'a list" where
  "Array_slice0 xs e =
     (if e < 0 then take (nat (int (length xs) + e)) xs else take (nat e) xs)"

text \<open>
  \<open>xs.reduce(f)\<close> without an initial value starts from the first element and folds the
  rest from left to right; on an empty array it throws, which the only caller excludes
  by its length test.
\<close>

fun Array_reduce :: "('a \<Rightarrow> 'a \<Rightarrow> 'a) \<Rightarrow> 'a list \<Rightarrow> 'a option" where
  "Array_reduce f [] = None"
| "Array_reduce f (x # xs) = Some (foldl f x xs)"

section \<open>The shared schema\<close>

record User =
  id_user :: int
  username :: string
  password :: string

record InsertUser =
  username_in :: string
  password_in :: string

record SensorReading =
  id_reading :: int
  dhtTemperature :: "real option"
  lm35Temperature :: "real option"
  ledLevel :: real
  timestamp :: int

record InsertSensorReading =
  dhtTemperature_in :: "real nullish"
  lm35Temperature_in :: "real nullish"
  ledLevel_in :: "real nullish"

section \<open>The in-memory store (server/storage.ts)\<close>

text \<open>
  The state of the store is passed in and returned. Every operation is an \<open>async\<close>
  function without a suspension point: its body runs to its end during the call, and
  the model gives the value its promise is settled with. No operation throws.
\<close>

record MemStorage =
  users :: "User js_map"
  sensorReadings :: "SensorReading js_map"
  currentUserId :: int
  currentReadingId :: int

definition MemStorage_new :: MemStorage where
  "MemStorage_new =
     \<lparr>users = [], sensorReadings = [], currentUserId = 1, currentReadingId = 1\<rparr>"

definition getUser :: "MemStorage \<Rightarrow> int \<Rightarrow> User option" where
  "getUser st i = Map_get (users st) i"

definition getUserByUsername :: "MemStorage \<Rightarrow> string \<Rightarrow> User option" where
  "getUserByUsername st name = find (\<lambda>user. username user = name) (Map_values (users st))"

definition createUser :: "InsertUser \<Rightarrow> MemStorage \<Rightarrow> User \<times> MemStorage" where
  "createUser insertUser st =
     (let i = currentUserId st;
          st1 = st\<lparr>currentUserId := i + 1\<rparr>;
          user = \<lparr>id_user = i, username = username_in insertUser,
                  password = password_in insertUser\<rparr>
      in (user, st1\<lparr>users := Map_set i user (users st1)\<rparr>))"

text \<open>The clock read by \<open>new Date()\<close> is the argument \<open>now\<close>, in milliseconds.\<close>

definition createSensorReading ::
  "int \<Rightarrow> InsertSensorReading \<Rightarrow> MemStorage \<Rightarrow> SensorReading \<times> MemStorage" where
  "createSensorReading now insertReading st =
     (let i = currentReadingId st;
          st1 = st\<lparr>currentReadingId := i + 1\<rparr>;
          reading = \<lparr>id_reading = i,
                     dhtTemperature =
                       nullish_or (map_nullish Some (dhtTemperature_in insertReading)) None,
                     lm35Temperature =
                       nullish_or (map_nullish Some (lm35Temperature_in insertReading)) None,
                     ledLevel = nullish_or (ledLevel_in insertReading) 0,
                     timestamp = now\<rparr>
      in (reading, st1\<lparr>sensorReadings := Map_set i reading (sensorReadings st1)\<rparr>))"

definition newest_first :: "SensorReading \<Rightarrow> SensorReading \<Rightarrow> int" where
  "newest_first a b = timestamp b - timestamp a"

definition getRecentSensorReadings :: "MemStorage \<Rightarrow> int \<Rightarrow> SensorReading list" where
  "getRecentSensorReadings st limit =
     Array_slice0 (Array_sort newest_first (Map_values (sensorReadings st))) limit"

definition later_of :: "SensorReading \<Rightarrow> SensorReading \<Rightarrow> SensorReading" where
  "later_of latest current = (if timestamp current > timestamp latest then current else latest)"

definition getLatestSensorReading :: "MemStorage \<Rightarrow> SensorReading option" where
  "getLatestSensorReading st =
     (let readings = Map_values (sensorReadings st)
      in if length readings = 0 then None else Array_reduce later_of readings)"

text \<open>
  A run of the store: \<open>createSensorReading\<close> called once for each candidate of a list,
  each at its own clock value; the readings returned are collected in call order.
\<close>

fun create_all ::
  "(int \<times> InsertSensorReading) list \<Rightarrow> MemStorage \<Rightarrow> SensorReading list \<times> MemStorage" where
  "create_all [] st = ([], st)"
| "create_all (c # cs) st =
     (let (r, st1) = createSensorReading (fst c) (snd c) st;
          (rs, st2) = create_all cs st1
      in (r # rs, st2))"

section \<open>Decoding and validation of upstream messages\<close>

text \<open>
  The value \<open>JSON.parse\<close> returns. An object is the list of its own properties, each key
  once; reading a property that is not there gives \<open>undefined\<close>, written \<open>None\<close>.
\<close>

datatype json =
    JNull
  | JBool bool
  | JNumber real
  | JString string
  | JArray "json list"
  | JObject "(string \<times> json) list"

datatype error = SyntaxError | TypeError | ZodError

text \<open>
  \<open>data.key\<close>: a property read on \<open>null\<close> throws a \<open>TypeError\<close>; on an object it is
  the property's value or \<open>undefined\<close>; a number, a boolean, a string or an array has
  none of the three keys the handler reads.
\<close>

fun get_property :: "json \<Rightarrow> string \<Rightarrow> error + json option" where
  "get_property JNull key = Inl TypeError"
| "get_property (JObject kvs) key = Inr (map_of kvs key)"
| "get_property (JBool b) key = Inr None"
| "get_property (JNumber x) key = Inr None"
| "get_property (JString t) key = Inr None"
| "get_property (JArray xs) key = Inr None"

text \<open>
  \<open>insertSensorReadingSchema\<close> is generated from the table \<open>sensor_readings\<close> by
  \<open>createInsertSchema\<close> of the library drizzle-zod, without \<open>id\<close> and \<open>timestamp\<close>.
  For an insert schema the library makes the field of a column that may be null
  \<open>nullable\<close> and \<open>optional\<close>, and the field of a not-null column that has a default
  \<open>optional\<close> only. So both temperatures (\<open>real\<close>, no constraint) accept a number,
  \<open>null\<close> or \<open>undefined\<close>, and \<open>ledLevel\<close> (\<open>integer\<close>, \<open>notNull\<close>, \<open>default(0)\<close>)
  accepts a number or \<open>undefined\<close>. Which numbers the number schema of a \<open>real\<close> and of
  an \<open>integer\<close> column accepts (any number, or only integers within a range) depends on
  the version of the library; the two predicates are parameters of the model.
\<close>

record column_checks =
  real_column :: "real \<Rightarrow> bool"
  integer_column :: "real \<Rightarrow> bool"

fun z_number :: "(real \<Rightarrow> bool) \<Rightarrow> json option \<Rightarrow> error + real nullish" where
  "z_number chk (Some (JNumber x)) = (if chk x then Inr (Value x) else Inl ZodError)"
| "z_number chk v = Inl ZodError"

fun z_nullable ::
  "(json option \<Rightarrow> error + 'a nullish) \<Rightarrow> json option \<Rightarrow> error + 'a nullish" where
  "z_nullable schema (Some JNull) = Inr Null"
| "z_nullable schema v = schema v"

fun z_optional ::
  "(json option \<Rightarrow> error + 'a nullish) \<Rightarrow> json option \<Rightarrow> error + 'a nullish" where
  "z_optional schema None = Inr Undefined"
| "z_optional schema v = schema v"

text \<open>The object schema reports every failing field in one \<open>ZodError\<close>.\<close>

definition insertSensorReadingSchema_parse ::
  "column_checks \<Rightarrow> json option \<Rightarrow> json option \<Rightarrow> json option
     \<Rightarrow> error + InsertSensorReading" where
  "insertSensorReadingSchema_parse ck dht lm35 led =
     (case (z_optional (z_nullable (z_number (real_column ck))) dht,
            z_optional (z_nullable (z_number (real_column ck))) lm35,
            z_optional (z_number (integer_column ck)) led) of
        (Inr a, Inr b, Inr c) \<Rightarrow>
          Inr \<lparr>dhtTemperature_in = a, lm35Temperature_in = b, ledLevel_in = c\<rparr>
      | _ \<Rightarrow> Inl ZodError)"

text \<open>
  The first half of the message handler: parse the payload, read the three fields,
  validate. \<open>JSON.parse\<close> belongs to the host language and is a parameter: it returns
  \<open>None\<close> where it throws a \<open>SyntaxError\<close>.
\<close>

definition decode ::
  "(string \<Rightarrow> json option) \<Rightarrow> column_checks \<Rightarrow> string \<Rightarrow> error + InsertSensorReading" where
  "decode JSON_parse ck message =
     (case JSON_parse message of
        None \<Rightarrow> Inl SyntaxError
      | Some data \<Rightarrow>
          (case get_property data ''suhuDHT'' of
             Inl e \<Rightarrow> Inl e
           | Inr dht \<Rightarrow>
               (case get_property data ''suhuLM35'' of
                  Inl e \<Rightarrow> Inl e
                | Inr lm35 \<Rightarrow>
                    (case get_property data ''LED'' of
                       Inl e \<Rightarrow> Inl e
                     | Inr led \<Rightarrow> insertSensorReadingSchema_parse ck dht lm35 led))))"

section \<open>The server (server/routes.ts)\<close>

text \<open>
  A live connection is a handle; its transport state and everything handed to its
  \<open>send\<close> are kept in the state of the server. \<open>wsConnections\<close> is a \<open>Set\<close>: it holds a
  handle once and is walked in insertion order. An envelope is recorded before
  \<open>JSON.stringify\<close> turns it into text.
\<close>

type_synonym WebSocket = nat

datatype ready_state = CONNECTING | OPEN | CLOSING | CLOSED

datatype envelope = connection_status string | sensor_data SensorReading

record server =
  storage :: MemStorage
  wsConnections :: "WebSocket list"
  readyState :: "WebSocket \<Rightarrow> ready_state"
  sent :: "(WebSocket \<times> envelope) list"

definition Set_add :: "'a \<Rightarrow> 'a list \<Rightarrow> 'a list" where
  "Set_add x xs = (if x \<in> set xs then xs else xs @ [x])"

definition Set_delete :: "'a \<Rightarrow> 'a list \<Rightarrow> 'a list" where
  "Set_delete x xs = removeAll x xs"

definition ws_send :: "WebSocket \<Rightarrow> envelope \<Rightarrow> server \<Rightarrow> server" where
  "ws_send ws e s = s\<lparr>sent := sent s @ [(ws, e)]\<rparr>"

definition sent_to :: "WebSocket \<Rightarrow> server \<Rightarrow> envelope list" where
  "sent_to ws s = map snd (filter (\<lambda>p. fst p = ws) (sent s))"

text \<open>The fan-out of the message handler: \<open>wsConnections.forEach\<close> with its state test.\<close>

definition broadcast :: "SensorReading \<Rightarrow> server \<Rightarrow> server" where
  "broadcast storedReading s =
     foldl (\<lambda>s1 ws. if readyState s1 ws = OPEN then ws_send ws (sensor_data storedReading) s1
                     else s1)
       s (wsConnections s)"

text \<open>
  The body of the handler's \<open>try\<close>, and the handler, whose \<open>catch\<close> writes the error to
  the console and goes on.
\<close>

definition process_message ::
  "(string \<Rightarrow> json option) \<Rightarrow> column_checks \<Rightarrow> int \<Rightarrow> string \<Rightarrow> server \<Rightarrow> error + server" where
  "process_message JSON_parse ck now message s =
     (case decode JSON_parse ck message of
        Inl e \<Rightarrow> Inl e
      | Inr sensorReading \<Rightarrow>
          (let (storedReading, st1) = createSensorReading now sensorReading (storage s)
           in Inr (broadcast storedReading (s\<lparr>storage := st1\<rparr>))))"

definition mqtt_on_message ::
  "(string \<Rightarrow> json option) \<Rightarrow> column_checks \<Rightarrow> int \<Rightarrow> string \<Rightarrow> server \<Rightarrow> server" where
  "mqtt_on_message JSON_parse ck now message s =
     (case process_message JSON_parse ck now message s of
        Inl e \<Rightarrow> s
      | Inr s1 \<Rightarrow> s1)"

text \<open>
  A new connection. The handler registers the handle, sends the status and calls
  \<open>getLatestSensorReading\<close>, which has no suspension point: the reading is read during
  the call and the promise is already settled with it. The \<open>then\<close> callback runs as the
  next microtask, before any other event is handled.
\<close>

definition wss_on_connection :: "WebSocket \<Rightarrow> server \<Rightarrow> server \<times> SensorReading option" where
  "wss_on_connection ws s =
     (let s1 = s\<lparr>wsConnections := Set_add ws (wsConnections s)\<rparr>;
          s2 = ws_send ws (connection_status ''connected'') s1
      in (s2, getLatestSensorReading (storage s2)))"

definition latest_then :: "WebSocket \<Rightarrow> SensorReading option \<Rightarrow> server \<Rightarrow> server" where
  "latest_then ws reading s =
     (case reading of
        Some r \<Rightarrow> ws_send ws (sensor_data r) s
      | None \<Rightarrow> s)"

definition on_connect :: "WebSocket \<Rightarrow> server \<Rightarrow> server" where
  "on_connect ws s = (let (s1, reading) = wss_on_connection ws s in latest_then ws reading s1)"

definition ws_on_close :: "WebSocket \<Rightarrow> server \<Rightarrow> server" where
  "ws_on_close ws s = s\<lparr>wsConnections := Set_delete ws (wsConnections s)\<rparr>"

definition ws_on_error :: "WebSocket \<Rightarrow> server \<Rightarrow> server" where
  "ws_on_error ws s = s\<lparr>wsConnections := Set_delete ws (wsConnections s)\<rparr>"

subsection \<open>The query routes\<close>

text \<open>
  \<open>parseInt(string)\<close> without a radix: skip leading white space, take a sign, take the
  prefix \<open>0x\<close> or \<open>0X\<close> as radix 16, read the longest run of digits of the radix; with
  no digit the result is \<open>NaN\<close>, written \<open>None\<close>. Text is a list of 8-bit characters,
  so the white space is the ASCII one.
\<close>

definition StrWhiteSpaceChar :: "char \<Rightarrow> bool" where
  "StrWhiteSpaceChar c = (of_char c \<in> {9, 10, 11, 12, 13, 32 :: nat})"

definition digit_value :: "char \<Rightarrow> nat" where
  "digit_value c =
     (let n = of_char c :: nat
      in if 48 \<le> n \<and> n \<le> 57 then n - 48
         else if 97 \<le> n \<and> n \<le> 122 then n - 87
         else if 65 \<le> n \<and> n \<le> 90 then n - 55
         else 36)"

definition parseInt :: "string \<Rightarrow> int option" where
  "parseInt inputString =
     (let S = dropWhile StrWhiteSpaceChar inputString;
          sign = (if take 1 S = ''-'' then - 1 else 1 :: int);
          S1 = (if take 1 S = ''+'' \<or> take 1 S = ''-'' then drop 1 S else S);
          hex = (take 2 S1 = ''0x'' \<or> take 2 S1 = ''0X'');
          R = (if hex then 16 else 10 :: nat);
          S2 = (if hex then drop 2 S1 else S1);
          Z = takeWhile (\<lambda>c. digit_value c < R) S2
      in if Z = [] then None
         else Some (sign * int (foldl (\<lambda>acc c. acc * R + digit_value c) 0 Z)))"

text \<open>\<open>n || d\<close> on a number: \<open>NaN\<close> and zero are falsy.\<close>

fun or_default :: "int option \<Rightarrow> int \<Rightarrow> int" where
  "or_default None d = d"
| "or_default (Some n) d = (if n = 0 then d else n)"

datatype body = Readings "SensorReading list" | Reading SensorReading | Message string

record response =
  status :: nat
  body :: body

text \<open>
  \<open>req.query.limit\<close> is a string, or \<open>undefined\<close> when the parameter is absent;
  \<open>parseInt\<close> turns \<open>undefined\<close> into the text \<open>undefined\<close> first. The store never
  throws, so the \<open>catch\<close> of a route is not reached.
\<close>

definition get_readings_recent :: "string option \<Rightarrow> server \<Rightarrow> response" where
  "get_readings_recent q s =
     (let limit = or_default (parseInt (case q of None \<Rightarrow> ''undefined'' | Some v \<Rightarrow> v)) 20;
          readings = getRecentSensorReadings (storage s) limit
      in \<lparr>status = 200, body = Readings readings\<rparr>)"

definition get_readings_latest :: "server \<Rightarrow> response" where
  "get_readings_latest s =
     (case getLatestSensorReading (storage s) of
        Some reading \<Rightarrow> \<lparr>status = 200, body = Reading reading\<rparr>
      | None \<Rightarrow> \<lparr>status = 404, body = Message ''No readings available''\<rparr>)"

section \<open>States of the store, and sample inputs\<close>

text \<open>
  The fields of the store are private: a store is what the constructor built and the
  two creating operations changed since.
\<close>

inductive reachable :: "MemStorage \<Rightarrow> bool" where
  new: "reachable MemStorage_new"
| user: "reachable st \<Longrightarrow> reachable (snd (createUser insertUser st))"
| reading: "reachable st \<Longrightarrow> reachable (snd (createSensorReading now insertReading st))"

text \<open>
  What holds of every such store: the keys of each map grow along the insertion order
  and lie below the counter, and a record is stored under its own identifier.
\<close>

definition store_inv :: "MemStorage \<Rightarrow> bool" where
  "store_inv st =
     (sorted_wrt (<) (map fst (users st)) \<and>
      list_all (\<lambda>p. fst p < currentUserId st \<and> id_user (snd p) = fst p) (users st) \<and>
      sorted_wrt (<) (map fst (sensorReadings st)) \<and>
      list_all (\<lambda>p. fst p < currentReadingId st \<and> id_reading (snd p) = fst p)
        (sensorReadings st))"

text \<open>Newest first: no reading is older than one that follows it.\<close>

definition not_older :: "SensorReading \<Rightarrow> SensorReading \<Rightarrow> bool" where
  "not_older a b = (timestamp b \<le> timestamp a)"

text \<open>
  Sample inputs: a library that accepts any number for a \<open>real\<close> column and whole
  numbers for an \<open>integer\<close> column, the value of \<open>JSON.parse\<close> at four payloads (and a
  \<open>SyntaxError\<close> elsewhere), candidates, stores and a server with three registered
  connections, the second of them closing.
\<close>

definition sample_checks :: column_checks where
  "sample_checks = \<lparr>real_column = (\<lambda>x. True), integer_column = (\<lambda>x. x \<in> \<int>)\<rparr>"

definition sample_parse :: "string \<Rightarrow> json option" where
  \<open>sample_parse = map_of
     [(''{"suhuDHT":26.5,"suhuLM35":27.1,"LED":2}'',
         JObject [(''suhuDHT'', JNumber 26.5), (''suhuLM35'', JNumber 27.1),
                  (''LED'', JNumber 2)]),
      (''{"suhuDHT":"hot"}'', JObject [(''suhuDHT'', JString ''hot'')]),
      (''{"suhuDHT":null,"suhuLM35":null}'',
         JObject [(''suhuDHT'', JNull), (''suhuLM35'', JNull)]),
      (''{"LED":null}'', JObject [(''LED'', JNull)]),
      (''{}'', JObject [])]\<close>

definition sample_candidate :: InsertSensorReading where
  "sample_candidate =
     \<lparr>dhtTemperature_in = Value 26.5, lm35Temperature_in = Value 27.1, ledLevel_in = Value 2\<rparr>"

definition sample_reading :: "int \<Rightarrow> int \<Rightarrow> SensorReading" where
  "sample_reading i t =
     \<lparr>id_reading = i, dhtTemperature = Some 26.5, lm35Temperature = Some 27.1,
      ledLevel = 2, timestamp = t\<rparr>"

definition sample_store :: MemStorage where
  "sample_store =
     snd (create_all [(1000, sample_candidate), (3000, sample_candidate),
                      (3000, sample_candidate), (2000, sample_candidate)] MemStorage_new)"

definition sample_user :: InsertUser where
  "sample_user = \<lparr>username_in = ''ada'', password_in = ''secret''\<rparr>"

definition sample_server :: server where
  "sample_server =
     \<lparr>storage = sample_store, wsConnections = [1, 2, 3],
      readyState = (\<lambda>ws. if ws = 2 then CLOSING else OPEN), sent = []\<rparr>"

section \<open>Properties of the store\<close>

subsection \<open>Map and array lemmas\<close>

lemma Map_set_fresh: "k \<notin> fst ` set m \<Longrightarrow> Map_set k v m = m @ [(k, v)]"
  by (induction m) auto

lemma mset_insort_cmp: "mset (insort_cmp cmp x xs) = add_mset x (mset xs)"
  by (induction xs) auto

lemma mset_Array_sort: "mset (Array_sort cmp xs) = mset xs"
  unfolding Array_sort_def by (induction xs) (auto simp: mset_insort_cmp)

lemma set_insort_cmp: "set (insort_cmp cmp x xs) = insert x (set xs)"
  by (induction xs) auto

lemma length_Array_sort: "length (Array_sort cmp xs) = length xs"
  using mset_Array_sort [of cmp xs] by (metis size_mset)

lemma set_Array_sort: "set (Array_sort cmp xs) = set xs"
  using mset_Array_sort [of cmp xs] by (metis set_mset_mset)

lemma sorted_insort_newest:
  "sorted_wrt not_older xs \<Longrightarrow> sorted_wrt not_older (insort_cmp newest_first x xs)"
  by (induction xs) (auto simp: set_insort_cmp not_older_def newest_first_def)

lemma sorted_Array_sort_newest: "sorted_wrt not_older (Array_sort newest_first xs)"
  unfolding Array_sort_def by (induction xs) (auto simp: sorted_insort_newest)

subsection \<open>The fold of getLatestSensorReading\<close>

lemma later_of_ge_left: "timestamp x \<le> timestamp (later_of x y)"
  by (simp add: later_of_def)

lemma later_of_ge_right: "timestamp y \<le> timestamp (later_of x y)"
  by (simp add: later_of_def)

lemma later_of_cases: "later_of x y = x \<or> later_of x y = y"
  by (simp add: later_of_def)

lemma foldl_later_of_mem: "foldl later_of x xs \<in> set (x # xs)"
proof (induction xs arbitrary: x)
  case Nil
  show ?case by simp
next
  case (Cons y ys)
  have "foldl later_of (later_of x y) ys \<in> set (later_of x y # ys)" by (rule Cons.IH)
  then show ?case using later_of_cases [of x y] by auto
qed

lemma foldl_later_of_ge: "timestamp x \<le> timestamp (foldl later_of x xs)"
proof (induction xs arbitrary: x)
  case Nil
  show ?case by simp
next
  case (Cons y ys)
  have "timestamp x \<le> timestamp (later_of x y)" by (rule later_of_ge_left)
  also have "\<dots> \<le> timestamp (foldl later_of (later_of x y) ys)" by (rule Cons.IH)
  finally show ?case by simp
qed

lemma foldl_later_of_max: "y \<in> set (x # xs) \<Longrightarrow> timestamp y \<le> timestamp (foldl later_of x xs)"
proof (induction xs arbitrary: x)
  case Nil
  then show ?case by simp
next
  case (Cons z zs)
  have step: "timestamp (later_of x z) \<le> timestamp (foldl later_of (later_of x z) zs)"
    by (rule foldl_later_of_ge)
  from Cons.prems consider "y = x" | "y = z" | "y \<in> set zs" by auto
  then show ?case
  proof cases
    case 1
    then show ?thesis using step later_of_ge_left [of x z] by simp
  next
    case 2
    then show ?thesis using step later_of_ge_right [of z x] by simp
  next
    case 3
    then show ?thesis using Cons.IH [of "later_of x z"] by simp
  qed
qed

lemma foldl_later_of_first:
  "sorted_wrt (<) (map id_reading (x # xs)) \<Longrightarrow> y \<in> set (x # xs) \<Longrightarrow>
   timestamp y = timestamp (foldl later_of x xs) \<Longrightarrow>
   id_reading (foldl later_of x xs) \<le> id_reading y"
proof (induction xs arbitrary: x y)
  case Nil
  then show ?case by simp
next
  case (Cons z zs)
  let ?h = "later_of x z"
  let ?r = "foldl later_of ?h zs"
  have srt: "sorted_wrt (<) (map id_reading (?h # zs))"
    using Cons.prems(1) by (auto simp: later_of_def)
  have ge: "timestamp ?h \<le> timestamp ?r" by (rule foldl_later_of_ge)
  have eq: "timestamp y = timestamp ?r" using Cons.prems(3) by simp
  show ?case
  proof (cases "y \<in> set (?h # zs)")
    case True
    from Cons.IH [OF srt True eq] show ?thesis by simp
  next
    case False
    show ?thesis
    proof (cases "timestamp z > timestamp x")
      case True
      then have "?h = z" by (simp add: later_of_def)
      with False Cons.prems(2) have "y = x" by auto
      with True \<open>?h = z\<close> ge eq show ?thesis by simp
    next
      case notgt: False
      then have h: "?h = x" by (simp add: later_of_def)
      with False Cons.prems(2) have y: "y = z" by auto
      with notgt h ge eq have "timestamp x = timestamp ?r" by simp
      moreover have "x \<in> set (?h # zs)" using h by simp
      ultimately have "id_reading ?r \<le> id_reading x" using Cons.IH [OF srt] by blast
      moreover have "id_reading x < id_reading z" using Cons.prems(1) by simp
      ultimately show ?thesis using y by simp
    qed
  qed
qed

subsection \<open>createSensorReading\<close>

lemma createSensorReading_id:
  "id_reading (fst (createSensorReading now c st)) = currentReadingId st"
  by (simp add: createSensorReading_def Let_def)

lemma createSensorReading_counter:
  "currentReadingId (snd (createSensorReading now c st)) = currentReadingId st + 1"
  by (simp add: createSensorReading_def Let_def)

lemma create_all_ids:
  "map id_reading (fst (create_all cs st)) =
     map (\<lambda>k. currentReadingId st + int k) [0 ..< length cs]"
proof (induction cs arbitrary: st)
  case Nil
  show ?case by simp
next
  case (Cons c cs)
  obtain r st1 where r: "createSensorReading (fst c) (snd c) st = (r, st1)" by force
  obtain rs st2 where rs: "create_all cs st1 = (rs, st2)" by force
  have idr: "id_reading r = currentReadingId st"
    using createSensorReading_id [of "fst c" "snd c" st] r by simp
  have cnt: "currentReadingId st1 = currentReadingId st + 1"
    using createSensorReading_counter [of "fst c" "snd c" st] r by simp
  have "map id_reading rs = map (\<lambda>k. currentReadingId st1 + int k) [0 ..< length cs]"
    using Cons.IH [of st1] rs by simp
  then have "map id_reading (r # rs) =
      currentReadingId st # map (\<lambda>k. currentReadingId st + int (Suc k)) [0 ..< length cs]"
    using idr cnt by (simp add: add.assoc)
  also have "\<dots> = map (\<lambda>k. currentReadingId st + int k) (0 # map Suc [0 ..< length cs])"
    by (simp add: comp_def)
  also have "0 # map Suc [0 ..< length cs] = [0 ..< length (c # cs)]"
    by (simp add: upt_conv_Cons map_Suc_upt del: upt_Suc)
  finally show ?case using r rs by simp
qed

text \<open>
  Claim C4. In every sequence of calls of \<open>createSensorReading\<close>, from any state of the
  store, the identifier of each returned reading is strictly greater than the
  identifier returned by every earlier call of the sequence; so the identifiers are
  pairwise different and none is used twice.
\<close>

theorem createSensorReading_ids_increase:
  "sorted_wrt (<) (map id_reading (fst (create_all cs st))) \<and>
   distinct (map id_reading (fst (create_all cs st)))"
proof -
  have "sorted_wrt (<) (map (\<lambda>k. currentReadingId st + int k) [0 ..< length cs])"
    by (simp add: sorted_wrt_map sorted_wrt_iff_nth_less)
  then have s: "sorted_wrt (<) (map id_reading (fst (create_all cs st)))"
    by (simp only: create_all_ids)
  then show ?thesis using strict_sorted_iff by blast
qed

subsection \<open>The invariant of the store\<close>

lemma Map_set_append:
  "list_all (\<lambda>p. fst p < k) m \<Longrightarrow> Map_set k v m = m @ [(k, v)]"
  by (rule Map_set_fresh) (auto simp: list_all_iff)

lemma store_inv_new: "store_inv MemStorage_new"
  by (simp add: store_inv_def MemStorage_new_def)

lemma sorted_wrt_snoc_less:
  "sorted_wrt (<) (map fst m) \<Longrightarrow> list_all (\<lambda>p. fst p < k) m \<Longrightarrow>
   sorted_wrt (<) (map fst (m @ [(k :: int, v)]))"
  by (auto simp: sorted_wrt_append list_all_iff)

lemma list_all_less_mono:
  "list_all (\<lambda>p. fst p < k \<and> Q p) m \<Longrightarrow> list_all (\<lambda>p. fst p < k + (1::int) \<and> Q p) m"
  by (auto simp: list_all_iff)

lemma list_all_less_only:
  "list_all (\<lambda>p. fst p < k \<and> Q p) m \<Longrightarrow> list_all (\<lambda>p. fst p < (k::int)) m"
  by (auto simp: list_all_iff)

lemma createUser_users:
  assumes "store_inv st"
  shows "users (snd (createUser c st)) = users st @ [(currentUserId st, fst (createUser c st))]"
proof -
  have "list_all (\<lambda>p. fst p < currentUserId st) (users st)"
    using assms unfolding store_inv_def by (auto simp: list_all_iff)
  then show ?thesis
    by (simp add: createUser_def Let_def Map_set_append)
qed

lemma createSensorReading_readings:
  assumes "store_inv st"
  shows "sensorReadings (snd (createSensorReading now c st)) =
           sensorReadings st @ [(currentReadingId st, fst (createSensorReading now c st))]"
proof -
  have "list_all (\<lambda>p. fst p < currentReadingId st) (sensorReadings st)"
    using assms unfolding store_inv_def by (auto simp: list_all_iff)
  then show ?thesis
    by (simp add: createSensorReading_def Let_def Map_set_append)
qed

lemma store_inv_createUser:
  assumes "store_inv st"
  shows "store_inv (snd (createUser c st))"
proof -
  let ?st = "snd (createUser c st)"
  have u: "users ?st = users st @ [(currentUserId st, fst (createUser c st))]"
    by (rule createUser_users [OF assms])
  have cu: "currentUserId ?st = currentUserId st + 1"
    and cr: "currentReadingId ?st = currentReadingId st"
    and rd: "sensorReadings ?st = sensorReadings st"
    and iu: "id_user (fst (createUser c st)) = currentUserId st"
    by (simp_all add: createUser_def Let_def)
  from assms have a1: "sorted_wrt (<) (map fst (users st))"
    and a2: "list_all (\<lambda>p. fst p < currentUserId st \<and> id_user (snd p) = fst p) (users st)"
    and a3: "sorted_wrt (<) (map fst (sensorReadings st))"
    and a4: "list_all (\<lambda>p. fst p < currentReadingId st \<and> id_reading (snd p) = fst p)
               (sensorReadings st)"
    unfolding store_inv_def by simp_all
  have b1: "sorted_wrt (<) (map fst (users ?st))"
    unfolding u using a1 a2 by (intro sorted_wrt_snoc_less list_all_less_only)
  have b2: "list_all (\<lambda>p. fst p < currentUserId ?st \<and> id_user (snd p) = fst p) (users ?st)"
    unfolding u cu using list_all_less_mono [OF a2] iu by simp
  show ?thesis
    unfolding store_inv_def using b1 b2 a3 a4 by (simp add: cr rd)
qed

lemma store_inv_createSensorReading:
  assumes "store_inv st"
  shows "store_inv (snd (createSensorReading now c st))"
proof -
  let ?st = "snd (createSensorReading now c st)"
  have r: "sensorReadings ?st =
             sensorReadings st @ [(currentReadingId st, fst (createSensorReading now c st))]"
    by (rule createSensorReading_readings [OF assms])
  have cr: "currentReadingId ?st = currentReadingId st + 1"
    and cu: "currentUserId ?st = currentUserId st"
    and us: "users ?st = users st"
    and ir: "id_reading (fst (createSensorReading now c st)) = currentReadingId st"
    by (simp_all add: createSensorReading_def Let_def)
  from assms have a1: "sorted_wrt (<) (map fst (users st))"
    and a2: "list_all (\<lambda>p. fst p < currentUserId st \<and> id_user (snd p) = fst p) (users st)"
    and a3: "sorted_wrt (<) (map fst (sensorReadings st))"
    and a4: "list_all (\<lambda>p. fst p < currentReadingId st \<and> id_reading (snd p) = fst p)
               (sensorReadings st)"
    unfolding store_inv_def by simp_all
  have b3: "sorted_wrt (<) (map fst (sensorReadings ?st))"
    unfolding r using a3 a4 by (intro sorted_wrt_snoc_less list_all_less_only)
  have b4: "list_all (\<lambda>p. fst p < currentReadingId ?st \<and> id_reading (snd p) = fst p)
              (sensorReadings ?st)"
    unfolding r cr using list_all_less_mono [OF a4] ir by simp
  show ?thesis
    unfolding store_inv_def using a1 a2 b3 b4 by (simp add: cu us)
qed

lemma reachable_store_inv: "reachable st \<Longrightarrow> store_inv st"
  by (induction rule: reachable.induct)
    (simp_all add: store_inv_new store_inv_createUser store_inv_createSensorReading)

lemma reachable_create_all: "reachable st \<Longrightarrow> reachable (snd (create_all cs st))"
proof (induction cs arbitrary: st)
  case Nil
  then show ?case by simp
next
  case (Cons c cs)
  have "reachable (snd (createSensorReading (fst c) (snd c) st))"
    using Cons.prems by (rule reachable.reading)
  then have "reachable (snd (create_all cs (snd (createSensorReading (fst c) (snd c) st))))"
    by (rule Cons.IH)
  then show ?case by (simp add: split_beta)
qed

lemma store_inv_ids_sorted:
  assumes "store_inv st"
  shows "sorted_wrt (<) (map id_reading (Map_values (sensorReadings st)))"
proof -
  have "map id_reading (Map_values (sensorReadings st)) = map fst (sensorReadings st)"
    using assms unfolding store_inv_def Map_values_def by (auto simp: list_all_iff)
  then show ?thesis using assms unfolding store_inv_def by simp
qed

lemma sample_store_eq:
  "sample_store =
     \<lparr>users = [],
      sensorReadings = [(1, sample_reading 1 1000), (2, sample_reading 2 3000),
                        (3, sample_reading 3 3000), (4, sample_reading 4 2000)],
      currentUserId = 1, currentReadingId = 5\<rparr>"
  by (simp add: sample_store_def MemStorage_new_def createSensorReading_def
      sample_candidate_def sample_reading_def Let_def)

lemma reachable_sample_store: "reachable sample_store"
  unfolding sample_store_def by (rule reachable_create_all) (rule reachable.new)

subsection \<open>The latest reading\<close>

lemma getLatest_Nil:
  "sensorReadings st = [] \<Longrightarrow> getLatestSensorReading st = None"
  by (simp add: getLatestSensorReading_def Map_values_def)

lemma getLatest_Cons:
  "Map_values (sensorReadings st) = x # xs \<Longrightarrow>
   getLatestSensorReading st = Some (foldl later_of x xs)"
  by (simp add: getLatestSensorReading_def)

text \<open>
  Claim C5. In every state of the store, \<open>getLatestSensorReading\<close> returns nothing when
  no reading is stored; otherwise it returns a stored reading whose timestamp is
  maximal among the stored readings.
\<close>

theorem getLatestSensorReading_max:
  "(Map_values (sensorReadings st) = [] \<longrightarrow> getLatestSensorReading st = None) \<and>
   (Map_values (sensorReadings st) \<noteq> [] \<longrightarrow>
      (\<exists>r. getLatestSensorReading st = Some r \<and> r \<in> set (Map_values (sensorReadings st)) \<and>
           (\<forall>r' \<in> set (Map_values (sensorReadings st)). timestamp r' \<le> timestamp r)))"
proof (cases "Map_values (sensorReadings st)")
  case Nil
  then show ?thesis by (simp add: getLatestSensorReading_def)
next
  case (Cons x xs)
  have "getLatestSensorReading st = Some (foldl later_of x xs)"
    using Cons by (rule getLatest_Cons)
  moreover have "foldl later_of x xs \<in> set (x # xs)" by (rule foldl_later_of_mem)
  moreover have "\<forall>r' \<in> set (x # xs). timestamp r' \<le> timestamp (foldl later_of x xs)"
    using foldl_later_of_max by blast
  ultimately show ?thesis using Cons by simp
qed

theorem getLatestSensorReading_max_witness:
  "Map_values (sensorReadings sample_store) \<noteq> [] \<and>
   getLatestSensorReading sample_store = Some (sample_reading 2 3000) \<and>
   (\<exists>r. getLatestSensorReading sample_store = Some r \<and>
        r \<in> set (Map_values (sensorReadings sample_store)) \<and>
        (\<forall>r' \<in> set (Map_values (sensorReadings sample_store)). timestamp r' \<le> timestamp r)) \<and>
   Map_values (sensorReadings MemStorage_new) = [] \<and>
   getLatestSensorReading MemStorage_new = None"
proof -
  have ne: "Map_values (sensorReadings sample_store) \<noteq> []"
    by (simp add: sample_store_eq Map_values_def)
  have e: "Map_values (sensorReadings MemStorage_new) = []"
    by (simp add: MemStorage_new_def Map_values_def)
  have v: "getLatestSensorReading sample_store = Some (sample_reading 2 3000)"
    by (simp add: sample_store_eq getLatestSensorReading_def Map_values_def later_of_def
        sample_reading_def)
  show ?thesis
    using ne e v getLatestSensorReading_max [of sample_store]
      getLatestSensorReading_max [of MemStorage_new]
    by simp
qed

text \<open>
  Claim C10. In every store built by the constructor and the creating operations that
  holds a reading, \<open>getLatestSensorReading\<close> returns the stored reading of maximal
  timestamp with the smallest identifier, that is, the earliest created of those that
  share the maximal timestamp: the fold keeps its candidate on a tie. The result is a
  function of the stored readings.
\<close>

theorem getLatestSensorReading_tie:
  assumes "reachable st" and "Map_values (sensorReadings st) \<noteq> []"
  shows "\<exists>r. getLatestSensorReading st = Some r \<and> r \<in> set (Map_values (sensorReadings st)) \<and>
           (\<forall>r' \<in> set (Map_values (sensorReadings st)).
              timestamp r' \<le> timestamp r \<and>
              (timestamp r' = timestamp r \<longrightarrow> id_reading r \<le> id_reading r') \<and>
              (timestamp r' = timestamp r \<and> id_reading r' = id_reading r \<longrightarrow> r' = r))"
proof -
  obtain x xs where xs: "Map_values (sensorReadings st) = x # xs"
    using assms(2) by (cases "Map_values (sensorReadings st)") auto
  let ?r = "foldl later_of x xs"
  have srt: "sorted_wrt (<) (map id_reading (x # xs))"
    using store_inv_ids_sorted [OF reachable_store_inv [OF assms(1)]] xs by simp
  then have dist: "distinct (map id_reading (x # xs))"
    using strict_sorted_iff by blast
  have mem: "?r \<in> set (x # xs)" by (rule foldl_later_of_mem)
  have "getLatestSensorReading st = Some ?r" using xs by (rule getLatest_Cons)
  moreover have "\<forall>r' \<in> set (x # xs). timestamp r' \<le> timestamp ?r"
    using foldl_later_of_max by blast
  moreover have "\<forall>r' \<in> set (x # xs). timestamp r' = timestamp ?r \<longrightarrow> id_reading ?r \<le> id_reading r'"
    using foldl_later_of_first [OF srt] by blast
  moreover have "\<forall>r' \<in> set (x # xs). id_reading r' = id_reading ?r \<longrightarrow> r' = ?r"
    using dist mem by (meson distinct_map inj_onD)
  ultimately show ?thesis using mem xs by auto
qed

theorem getLatestSensorReading_tie_witness:
  "reachable sample_store \<and> Map_values (sensorReadings sample_store) \<noteq> [] \<and>
   sample_reading 3 3000 \<in> set (Map_values (sensorReadings sample_store)) \<and>
   getLatestSensorReading sample_store = Some (sample_reading 2 3000) \<and>
   (\<exists>r. getLatestSensorReading sample_store = Some r \<and>
        (\<forall>r' \<in> set (Map_values (sensorReadings sample_store)).
           timestamp r' \<le> timestamp r \<and>
           (timestamp r' = timestamp r \<longrightarrow> id_reading r \<le> id_reading r')))"
proof -
  have ne: "Map_values (sensorReadings sample_store) \<noteq> []"
    by (simp add: sample_store_eq Map_values_def)
  have m: "sample_reading 3 3000 \<in> set (Map_values (sensorReadings sample_store))"
    by (simp add: sample_store_eq Map_values_def)
  have v: "getLatestSensorReading sample_store = Some (sample_reading 2 3000)"
    by (simp add: sample_store_eq getLatestSensorReading_def Map_values_def later_of_def
        sample_reading_def)
  from getLatestSensorReading_tie [OF reachable_sample_store ne]
  obtain r where "getLatestSensorReading sample_store = Some r"
    and "\<forall>r' \<in> set (Map_values (sensorReadings sample_store)).
           timestamp r' \<le> timestamp r \<and>
           (timestamp r' = timestamp r \<longrightarrow> id_reading r \<le> id_reading r')"
    by blast
  then show ?thesis using reachable_sample_store ne m v by blast
qed

subsection \<open>The recent readings\<close>

lemma Array_slice0_pos: "0 < k \<Longrightarrow> Array_slice0 xs k = take (nat k) xs"
  by (simp add: Array_slice0_def)

lemma sorted_wrt_take_drop:
  assumes "sorted_wrt P xs"
  shows "\<forall>a \<in> set (take n xs). \<forall>b \<in> set (drop n xs). P a b"
proof -
  have "sorted_wrt P (take n xs @ drop n xs)" using assms by simp
  then show ?thesis unfolding sorted_wrt_append by blast
qed

lemma sample_store_recent:
  "Array_sort newest_first (Map_values (sensorReadings sample_store)) =
     [sample_reading 2 3000, sample_reading 3 3000, sample_reading 4 2000, sample_reading 1 1000]"
  by (simp add: sample_store_eq Map_values_def Array_sort_def newest_first_def sample_reading_def)

text \<open>
  Claim C6. For every positive \<open>k\<close> and every state of the store with \<open>N\<close> readings,
  \<open>getRecentSensorReadings k\<close> returns \<open>min k N\<close> stored readings, newest first, and they
  are the \<open>k\<close> most recent ones: the stored readings are the returned ones together
  with a rest of which none is newer than a returned one; with \<open>N \<le> k\<close> all stored
  readings are returned.
\<close>

theorem getRecentSensorReadings_recent:
  assumes "0 < k"
  shows "length (getRecentSensorReadings st k) = min (nat k) (length (Map_values (sensorReadings st))) \<and>
         sorted_wrt not_older (getRecentSensorReadings st k) \<and>
         (\<exists>rest. mset (Map_values (sensorReadings st)) = mset (getRecentSensorReadings st k) + mset rest \<and>
            (\<forall>a \<in> set (getRecentSensorReadings st k). \<forall>b \<in> set rest. timestamp b \<le> timestamp a)) \<and>
         (length (Map_values (sensorReadings st)) \<le> nat k \<longrightarrow>
            mset (getRecentSensorReadings st k) = mset (Map_values (sensorReadings st)))"
proof -
  let ?all = "Map_values (sensorReadings st)"
  let ?s = "Array_sort newest_first ?all"
  have res: "getRecentSensorReadings st k = take (nat k) ?s"
    using assms by (simp add: getRecentSensorReadings_def Array_slice0_pos)
  have srt: "sorted_wrt not_older ?s" by (rule sorted_Array_sort_newest)
  have len: "length (take (nat k) ?s) = min (nat k) (length ?all)"
    by (simp add: length_Array_sort min.commute)
  have s1: "sorted_wrt not_older (take (nat k) ?s)"
    using srt by (rule sorted_wrt_take)
  have "mset ?all = mset (take (nat k) ?s @ drop (nat k) ?s)"
    by (simp add: mset_Array_sort)
  then have split: "mset ?all = mset (take (nat k) ?s) + mset (drop (nat k) ?s)"
    by (simp only: mset_append)
  have cross: "\<forall>a \<in> set (take (nat k) ?s). \<forall>b \<in> set (drop (nat k) ?s). timestamp b \<le> timestamp a"
    using sorted_wrt_take_drop [OF srt, of "nat k"] by (simp add: not_older_def)
  have all: "length ?all \<le> nat k \<longrightarrow> mset (take (nat k) ?s) = mset ?all"
    by (simp add: length_Array_sort mset_Array_sort)
  from split cross have ex: "\<exists>rest. mset ?all = mset (take (nat k) ?s) + mset rest \<and>
      (\<forall>a \<in> set (take (nat k) ?s). \<forall>b \<in> set rest. timestamp b \<le> timestamp a)"
    by blast
  show ?thesis unfolding res using len s1 ex all by blast
qed

theorem getRecentSensorReadings_recent_witness:
  "(0::int) < 2 \<and>
   getRecentSensorReadings sample_store 2 = [sample_reading 2 3000, sample_reading 3 3000] \<and>
   length (getRecentSensorReadings sample_store 2) =
     min (nat 2) (length (Map_values (sensorReadings sample_store))) \<and>
   sorted_wrt not_older (getRecentSensorReadings sample_store 2) \<and>
   (\<exists>rest. mset (Map_values (sensorReadings sample_store)) =
             mset (getRecentSensorReadings sample_store 2) + mset rest \<and>
          (\<forall>a \<in> set (getRecentSensorReadings sample_store 2). \<forall>b \<in> set rest.
             timestamp b \<le> timestamp a))"
proof -
  have k: "(0::int) < 2" by simp
  have v: "getRecentSensorReadings sample_store 2 = [sample_reading 2 3000, sample_reading 3 3000]"
    by (simp add: getRecentSensorReadings_def sample_store_recent Array_slice0_def)
  show ?thesis
    using k v getRecentSensorReadings_recent [OF k, of sample_store] by simp
qed

subsection \<open>Users\<close>

text \<open>
  Claim C2 says that \<open>createUser\<close> fails for a candidate whose username is already
  stored. The in-memory store has no such check: a second call with the same candidate
  returns a user and both users are stored.
\<close>

theorem createUser_duplicate_counterexample:
  "fst (createUser sample_user (snd (createUser sample_user MemStorage_new))) =
     \<lparr>id_user = 2, username = ''ada'', password = ''secret''\<rparr> \<and>
   Map_values (users (snd (createUser sample_user (snd (createUser sample_user MemStorage_new))))) =
     [\<lparr>id_user = 1, username = ''ada'', password = ''secret''\<rparr>,
      \<lparr>id_user = 2, username = ''ada'', password = ''secret''\<rparr>]"
  by (simp add: createUser_def MemStorage_new_def sample_user_def Map_values_def Let_def)

text \<open>
  Claim C2, as the store implements it. In every store built by the constructor and the
  creating operations, \<open>createUser\<close> succeeds for every candidate, also for one whose
  username is already stored: it returns the candidate under the next identifier,
  appends it to the stored users, where \<open>getUser\<close> finds it, and advances the counter.
\<close>

theorem createUser_persists:
  assumes "reachable st"
  shows "fst (createUser c st) =
           \<lparr>id_user = currentUserId st, username = username_in c, password = password_in c\<rparr> \<and>
         users (snd (createUser c st)) = users st @ [(currentUserId st, fst (createUser c st))] \<and>
         currentUserId (snd (createUser c st)) = currentUserId st + 1 \<and>
         getUser (snd (createUser c st)) (currentUserId st) = Some (fst (createUser c st))"
proof -
  have inv: "store_inv st" using assms by (rule reachable_store_inv)
  have u: "users (snd (createUser c st)) = users st @ [(currentUserId st, fst (createUser c st))]"
    by (rule createUser_users [OF inv])
  have fresh: "currentUserId st \<notin> fst ` set (users st)"
    using inv unfolding store_inv_def by (auto simp: list_all_iff)
  then have "map_of (users st) (currentUserId st) = None"
    by (simp add: map_of_eq_None_iff)
  then have g: "getUser (snd (createUser c st)) (currentUserId st) = Some (fst (createUser c st))"
    unfolding getUser_def Map_get_def u by (simp add: map_add_def)
  have f: "fst (createUser c st) =
           \<lparr>id_user = currentUserId st, username = username_in c, password = password_in c\<rparr>"
    and n: "currentUserId (snd (createUser c st)) = currentUserId st + 1"
    by (simp_all add: createUser_def Let_def)
  show ?thesis using f u n g by blast
qed

theorem createUser_persists_witness:
  "reachable (snd (createUser sample_user MemStorage_new)) \<and>
   getUserByUsername (snd (createUser sample_user MemStorage_new)) (username_in sample_user) =
     Some \<lparr>id_user = 1, username = ''ada'', password = ''secret''\<rparr> \<and>
   fst (createUser sample_user (snd (createUser sample_user MemStorage_new))) =
     \<lparr>id_user = 2, username = ''ada'', password = ''secret''\<rparr> \<and>
   getUser (snd (createUser sample_user (snd (createUser sample_user MemStorage_new)))) 2 =
     Some (fst (createUser sample_user (snd (createUser sample_user MemStorage_new))))"
proof -
  have r: "reachable (snd (createUser sample_user MemStorage_new))"
    by (rule reachable.user) (rule reachable.new)
  have c: "currentUserId (snd (createUser sample_user MemStorage_new)) = 2"
    by (simp add: createUser_def MemStorage_new_def Let_def)
  have g: "getUserByUsername (snd (createUser sample_user MemStorage_new)) (username_in sample_user) =
     Some \<lparr>id_user = 1, username = ''ada'', password = ''secret''\<rparr>"
    by (simp add: getUserByUsername_def createUser_def MemStorage_new_def sample_user_def
        Map_values_def Let_def)
  show ?thesis
    using r g createUser_persists [OF r, of sample_user] unfolding c
    by (simp add: sample_user_def)
qed

subsection \<open>The route of the recent readings\<close>

lemma parseInt_samples:
  "parseInt ''undefined'' = None" "parseInt ''abc'' = None" "parseInt ''0'' = Some 0"
  "parseInt ''20'' = Some 20" "parseInt ''-3'' = Some (- 3)"
  by (simp_all add: parseInt_def digit_value_def StrWhiteSpaceChar_def)

lemma recent_default_limit:
  assumes "parseInt (case q of None \<Rightarrow> ''undefined'' | Some v \<Rightarrow> v) \<in> {None, Some 0}"
  shows "get_readings_recent q s = get_readings_recent (Some ''20'') s"
proof -
  have "or_default (parseInt (case q of None \<Rightarrow> ''undefined'' | Some v \<Rightarrow> v)) 20 = 20"
    using assms by auto
  then show ?thesis
    by (simp add: get_readings_recent_def parseInt_samples)
qed

text \<open>
  Claim C1 at the limit \<open>-3\<close>. The route passes a negative limit on to the store, whose
  \<open>slice\<close> then drops the three oldest readings: of the four sample readings one is
  returned, where the limit 20 returns all four. An absent limit and the limit \<open>0\<close> do
  give what the limit 20 gives.
\<close>

theorem recent_negative_limit:
  "get_readings_recent (Some ''-3'') sample_server =
     \<lparr>status = 200, body = Readings [sample_reading 2 3000]\<rparr> \<and>
   get_readings_recent (Some ''20'') sample_server =
     \<lparr>status = 200, body = Readings [sample_reading 2 3000, sample_reading 3 3000,
                                      sample_reading 4 2000, sample_reading 1 1000]\<rparr> \<and>
   get_readings_recent None sample_server = get_readings_recent (Some ''20'') sample_server \<and>
   get_readings_recent (Some ''0'') sample_server = get_readings_recent (Some ''20'') sample_server"
  by (simp add: get_readings_recent_def parseInt_samples getRecentSensorReadings_def
      sample_server_def sample_store_recent Array_slice0_def)

section \<open>Properties of the server\<close>

subsection \<open>The fan-out\<close>

lemma ws_send_fields:
  "storage (ws_send ws e s) = storage s"
  "wsConnections (ws_send ws e s) = wsConnections s"
  "readyState (ws_send ws e s) = readyState s"
  "sent (ws_send ws e s) = sent s @ [(ws, e)]"
  by (simp_all add: ws_send_def)

lemma broadcast_foldl:
  "foldl (\<lambda>s1 ws. if readyState s1 ws = OPEN then ws_send ws e s1 else s1) s xs =
     s\<lparr>sent := sent s @ map (\<lambda>ws. (ws, e)) (filter (\<lambda>ws. readyState s ws = OPEN) xs)\<rparr>"
proof (induction xs arbitrary: s)
  case Nil
  show ?case by simp
next
  case (Cons x xs)
  show ?case
  proof (cases "readyState s x = OPEN")
    case True
    then show ?thesis
      by (simp add: Cons.IH ws_send_fields)
  next
    case False
    then show ?thesis by (simp add: Cons.IH)
  qed
qed

lemma broadcast_eq:
  "broadcast r s =
     s\<lparr>sent := sent s @ map (\<lambda>ws. (ws, sensor_data r))
                          (filter (\<lambda>ws. readyState s ws = OPEN) (wsConnections s))\<rparr>"
  unfolding broadcast_def by (rule broadcast_foldl)

lemma count_list_distinct:
  "distinct xs \<Longrightarrow> count_list xs x = (if x \<in> set xs then 1 else 0)"
  by (induction xs) auto

lemma count_list_pair: "count_list (map (\<lambda>w. (w, e)) xs) (x, e) = count_list xs x"
  by (induction xs) auto

lemma distinct_Set_add: "distinct xs \<Longrightarrow> distinct (Set_add x xs)"
  by (simp add: Set_add_def)

lemma distinct_Set_delete: "distinct xs \<Longrightarrow> distinct (Set_delete x xs)"
  by (simp add: Set_delete_def distinct_removeAll)

lemma distinct_on_connect:
  "distinct (wsConnections s) \<Longrightarrow> distinct (wsConnections (on_connect ws s))"
  by (simp add: on_connect_def wss_on_connection_def latest_then_def ws_send_def Set_add_def
      Let_def split: option.split)

lemma distinct_ws_on_close:
  "distinct (wsConnections s) \<Longrightarrow> distinct (wsConnections (ws_on_close ws s))"
  by (simp add: ws_on_close_def distinct_Set_delete)

lemma distinct_ws_on_error:
  "distinct (wsConnections s) \<Longrightarrow> distinct (wsConnections (ws_on_error ws s))"
  by (simp add: ws_on_error_def distinct_Set_delete)

lemma wsConnections_mqtt_on_message:
  "wsConnections (mqtt_on_message P ck now m s) = wsConnections s"
  by (simp add: mqtt_on_message_def process_message_def broadcast_eq split_beta
      split: sum.split)

text \<open>
  Claim C7. When a stored reading is fanned out while \<open>K\<close> handles are registered, each
  registered handle whose transport state is open is sent exactly one \<open>sensor_data\<close>
  envelope carrying that reading, and nothing else is sent: a handle in another state
  is sent nothing. With all \<open>K\<close> handles open there are \<open>K\<close> sends. The registered
  handles stay as they are: a handle that is skipped is not removed.
\<close>

theorem broadcast_to_open_connections:
  assumes "distinct (wsConnections s)"
  shows "wsConnections (broadcast r s) = wsConnections s \<and>
         readyState (broadcast r s) = readyState s \<and>
         storage (broadcast r s) = storage s \<and>
         (\<exists>new. sent (broadcast r s) = sent s @ new \<and>
            (\<forall>ws. count_list new (ws, sensor_data r) =
                    (if ws \<in> set (wsConnections s) \<and> readyState s ws = OPEN then 1 else 0)) \<and>
            (\<forall>p \<in> set new. snd p = sensor_data r \<and> fst p \<in> set (wsConnections s) \<and>
                              readyState s (fst p) = OPEN) \<and>
            ((\<forall>ws \<in> set (wsConnections s). readyState s ws = OPEN) \<longrightarrow>
               length new = length (wsConnections s)))"
proof -
  let ?open = "filter (\<lambda>ws. readyState s ws = OPEN) (wsConnections s)"
  let ?new = "map (\<lambda>ws. (ws, sensor_data r)) ?open"
  have d: "distinct ?open" using assms by simp
  have c: "\<forall>ws. count_list ?new (ws, sensor_data r) =
             (if ws \<in> set (wsConnections s) \<and> readyState s ws = OPEN then 1 else 0)"
    by (simp add: count_list_pair count_list_distinct [OF d])
  have m: "\<forall>p \<in> set ?new. snd p = sensor_data r \<and> fst p \<in> set (wsConnections s) \<and>
             readyState s (fst p) = OPEN"
    by auto
  have k: "(\<forall>ws \<in> set (wsConnections s). readyState s ws = OPEN) \<longrightarrow>
             length ?new = length (wsConnections s)"
    by simp
  have s: "sent (broadcast r s) = sent s @ ?new" by (simp add: broadcast_eq)
  have "\<exists>new. sent (broadcast r s) = sent s @ new \<and>
            (\<forall>ws. count_list new (ws, sensor_data r) =
                    (if ws \<in> set (wsConnections s) \<and> readyState s ws = OPEN then 1 else 0)) \<and>
            (\<forall>p \<in> set new. snd p = sensor_data r \<and> fst p \<in> set (wsConnections s) \<and>
                              readyState s (fst p) = OPEN) \<and>
            ((\<forall>ws \<in> set (wsConnections s). readyState s ws = OPEN) \<longrightarrow>
               length new = length (wsConnections s))"
    using s c m k by blast
  then show ?thesis by (simp add: broadcast_eq)
qed

theorem broadcast_to_open_connections_witness:
  "distinct (wsConnections sample_server) \<and>
   sent (broadcast (sample_reading 9 9000) sample_server) =
     [(1, sensor_data (sample_reading 9 9000)), (3, sensor_data (sample_reading 9 9000))] \<and>
   wsConnections (broadcast (sample_reading 9 9000) sample_server) = [1, 2, 3] \<and>
   (\<exists>new. sent (broadcast (sample_reading 9 9000) sample_server) = sent sample_server @ new \<and>
      (\<forall>ws. count_list new (ws, sensor_data (sample_reading 9 9000)) =
              (if ws \<in> set (wsConnections sample_server) \<and> readyState sample_server ws = OPEN
               then 1 else 0)))"
proof -
  have d: "distinct (wsConnections sample_server)" by (simp add: sample_server_def)
  have v: "sent (broadcast (sample_reading 9 9000) sample_server) =
     [(1, sensor_data (sample_reading 9 9000)), (3, sensor_data (sample_reading 9 9000))]"
    by (simp add: broadcast_eq sample_server_def)
  have w: "wsConnections (broadcast (sample_reading 9 9000) sample_server) = [1, 2, 3]"
    by (simp add: broadcast_eq sample_server_def)
  from broadcast_to_open_connections [OF d, of "sample_reading 9 9000"]
  have "\<exists>new. sent (broadcast (sample_reading 9 9000) sample_server) = sent sample_server @ new \<and>
      (\<forall>ws. count_list new (ws, sensor_data (sample_reading 9 9000)) =
              (if ws \<in> set (wsConnections sample_server) \<and> readyState sample_server ws = OPEN
               then 1 else 0))"
    by blast
  then show ?thesis using d v w by blast
qed

subsection \<open>A new connection\<close>

text \<open>
  Claim C8. For a new connection the handler registers the handle and sends it one
  \<open>connection_status\<close> envelope with status \<open>connected\<close>, before anything else; the
  callback of the latest-reading fetch then sends it one \<open>sensor_data\<close> envelope with
  the latest stored reading when the store holds a reading, and nothing when the store
  is empty.
\<close>

theorem on_connect_sends:
  "ws \<in> set (wsConnections (fst (wss_on_connection ws s))) \<and>
   sent (fst (wss_on_connection ws s)) = sent s @ [(ws, connection_status ''connected'')] \<and>
   snd (wss_on_connection ws s) = getLatestSensorReading (storage s) \<and>
   wsConnections (on_connect ws s) = Set_add ws (wsConnections s) \<and>
   storage (on_connect ws s) = storage s \<and>
   sent (on_connect ws s) =
     sent s @ (ws, connection_status ''connected'') #
       (case getLatestSensorReading (storage s) of
          None \<Rightarrow> []
        | Some r \<Rightarrow> [(ws, sensor_data r)])"
  by (simp add: on_connect_def wss_on_connection_def latest_then_def ws_send_def Set_add_def
      Let_def split: option.split)

theorem on_connect_sends_witness:
  "sent (on_connect 7 sample_server) =
     [(7, connection_status ''connected''), (7, sensor_data (sample_reading 2 3000))] \<and>
   sent (on_connect 7 (sample_server\<lparr>storage := MemStorage_new\<rparr>)) =
     [(7, connection_status ''connected'')] \<and>
   wsConnections (on_connect 7 sample_server) = [1, 2, 3, 7]"
proof -
  have v: "getLatestSensorReading sample_store = Some (sample_reading 2 3000)"
    by (simp add: sample_store_eq getLatestSensorReading_def Map_values_def later_of_def
        sample_reading_def)
  have e: "getLatestSensorReading MemStorage_new = None"
    by (simp add: getLatest_Nil MemStorage_new_def)
  show ?thesis
    using on_connect_sends [of 7 sample_server]
      on_connect_sends [of 7 "sample_server\<lparr>storage := MemStorage_new\<rparr>"]
    by (simp add: v e sample_server_def Set_add_def)
qed

subsection \<open>The message handler\<close>

lemma mqtt_on_message_Inl:
  "decode P ck m = Inl e \<Longrightarrow> mqtt_on_message P ck now m s = s"
  by (simp add: mqtt_on_message_def process_message_def)

lemma mqtt_on_message_Inr:
  "decode P ck m = Inr c \<Longrightarrow>
   mqtt_on_message P ck now m s =
     broadcast (fst (createSensorReading now c (storage s)))
       (s\<lparr>storage := snd (createSensorReading now c (storage s))\<rparr>)"
  by (simp add: mqtt_on_message_def process_message_def split_beta)

lemma decode_SyntaxError: "P m = None \<Longrightarrow> decode P ck m = Inl SyntaxError"
  by (simp add: decode_def)

lemma decode_fields:
  "P m = Some data \<Longrightarrow> get_property data ''suhuDHT'' = Inr dht \<Longrightarrow>
   get_property data ''suhuLM35'' = Inr lm35 \<Longrightarrow> get_property data ''LED'' = Inr led \<Longrightarrow>
   decode P ck m = insertSensorReadingSchema_parse ck dht lm35 led"
  by (simp add: decode_def)

lemma sample_decode:
  \<open>decode sample_parse sample_checks ''{"suhuDHT":"hot"}'' = Inl ZodError\<close>
  \<open>decode sample_parse sample_checks ''{"LED":null}'' = Inl ZodError\<close>
  \<open>decode sample_parse sample_checks ''{"suhuDHT":26.5'' = Inl SyntaxError\<close>
  \<open>decode sample_parse sample_checks ''{"suhuDHT":26.5,"suhuLM35":27.1,"LED":2}'' =
     Inr sample_candidate\<close>
  \<open>decode sample_parse sample_checks ''{"suhuDHT":null,"suhuLM35":null}'' =
     Inr \<lparr>dhtTemperature_in = Null, lm35Temperature_in = Null, ledLevel_in = Undefined\<rparr>\<close>
  \<open>decode sample_parse sample_checks ''{}'' =
     Inr \<lparr>dhtTemperature_in = Undefined, lm35Temperature_in = Undefined,
          ledLevel_in = Undefined\<rparr>\<close>
  by (simp_all add: decode_def sample_parse_def sample_checks_def sample_candidate_def
      insertSensorReadingSchema_parse_def)

text \<open>
  Claim C3. When the payload of an upstream message fails to parse or to validate, the
  handler leaves the whole state as it was: no reading is stored, nothing is sent, the
  store is unchanged. A valid message that follows is decoded, stored and fanned out
  as it would have been without the malformed one.
\<close>

theorem malformed_message_discarded:
  assumes "decode P ck m = Inl e"
  shows "mqtt_on_message P ck now m s = s \<and>
         (\<forall>now' m' c. decode P ck m' = Inr c \<longrightarrow>
            mqtt_on_message P ck now' m' (mqtt_on_message P ck now m s) =
              broadcast (fst (createSensorReading now' c (storage s)))
                (s\<lparr>storage := snd (createSensorReading now' c (storage s))\<rparr>))"
  using assms by (simp add: mqtt_on_message_Inl mqtt_on_message_Inr)

theorem malformed_message_discarded_witness:
  \<open>decode sample_parse sample_checks ''{"suhuDHT":"hot"}'' = Inl ZodError \<and>
   mqtt_on_message sample_parse sample_checks 4000 ''{"suhuDHT":"hot"}'' sample_server =
     sample_server \<and>
   sent (mqtt_on_message sample_parse sample_checks 5000
           ''{"suhuDHT":26.5,"suhuLM35":27.1,"LED":2}''
           (mqtt_on_message sample_parse sample_checks 4000 ''{"suhuDHT":"hot"}''
              sample_server)) =
     [(1, sensor_data (sample_reading 5 5000)), (3, sensor_data (sample_reading 5 5000))] \<and>
   sensorReadings (storage (mqtt_on_message sample_parse sample_checks 5000
           ''{"suhuDHT":26.5,"suhuLM35":27.1,"LED":2}''
           (mqtt_on_message sample_parse sample_checks 4000 ''{"suhuDHT":"hot"}''
              sample_server))) =
     sensorReadings sample_store @ [(5, sample_reading 5 5000)]\<close>
proof -
  have bad: \<open>decode sample_parse sample_checks ''{"suhuDHT":"hot"}'' = Inl ZodError\<close>
    by (rule sample_decode)
  have good: \<open>decode sample_parse sample_checks ''{"suhuDHT":26.5,"suhuLM35":27.1,"LED":2}'' =
     Inr sample_candidate\<close>
    by (rule sample_decode)
  have cr: "createSensorReading 5000 sample_candidate sample_store =
      (sample_reading 5 5000,
       sample_store\<lparr>currentReadingId := 6,
                     sensorReadings := sensorReadings sample_store @ [(5, sample_reading 5 5000)]\<rparr>)"
    by (simp add: sample_store_eq createSensorReading_def sample_candidate_def
        sample_reading_def Let_def)
  from malformed_message_discarded [of sample_parse sample_checks
      \<open>''{"suhuDHT":"hot"}''\<close> ZodError 4000 sample_server, OF bad]
  have same: \<open>mqtt_on_message sample_parse sample_checks 4000 ''{"suhuDHT":"hot"}''
               sample_server = sample_server\<close>
    and next_ok: \<open>mqtt_on_message sample_parse sample_checks 5000
           ''{"suhuDHT":26.5,"suhuLM35":27.1,"LED":2}''
           (mqtt_on_message sample_parse sample_checks 4000 ''{"suhuDHT":"hot"}''
              sample_server) =
         broadcast (fst (createSensorReading 5000 sample_candidate (storage sample_server)))
           (sample_server\<lparr>storage :=
              snd (createSensorReading 5000 sample_candidate (storage sample_server))\<rparr>)\<close>
    using good by blast+
  have st: "storage sample_server = sample_store" by (simp add: sample_server_def)
  show ?thesis
    unfolding next_ok st cr using bad same
    by (simp add: broadcast_eq sample_server_def)
qed

subsection \<open>Messages without fields\<close>

lemma parse_nullish_fields:
  assumes "dht \<in> {None, Some JNull}" and "lm35 \<in> {None, Some JNull}"
  shows "\<exists>a b. a \<in> {Undefined, Null} \<and> b \<in> {Undefined, Null} \<and>
           insertSensorReadingSchema_parse ck dht lm35 None =
             Inr \<lparr>dhtTemperature_in = a, lm35Temperature_in = b, ledLevel_in = Undefined\<rparr>"
  using assms by (auto simp: insertSensorReadingSchema_parse_def)

lemma parse_null_led:
  "insertSensorReadingSchema_parse ck dht lm35 (Some JNull) = Inl ZodError"
  by (simp add: insertSensorReadingSchema_parse_def split: sum.split)

lemma createSensorReading_nullish:
  assumes "a \<in> {Undefined, Null}" and "b \<in> {Undefined, Null}"
  shows "createSensorReading now
           \<lparr>dhtTemperature_in = a, lm35Temperature_in = b, ledLevel_in = Undefined\<rparr> st =
         (\<lparr>id_reading = currentReadingId st, dhtTemperature = None, lm35Temperature = None,
           ledLevel = 0, timestamp = now\<rparr>,
          st\<lparr>currentReadingId := currentReadingId st + 1,
             sensorReadings :=
               Map_set (currentReadingId st)
                 \<lparr>id_reading = currentReadingId st, dhtTemperature = None,
                  lm35Temperature = None, ledLevel = 0, timestamp = now\<rparr>
                 (sensorReadings st)\<rparr>)"
  using assms by (auto simp: createSensorReading_def Let_def)

text \<open>
  Claim C9 says that a payload whose three fields are absent or null is valid. A payload
  whose indicator level is \<open>null\<close> is not: the column is declared not-null, its field
  accepts a number or \<open>undefined\<close>, and the message is discarded.
\<close>

theorem null_indicator_counterexample:
  \<open>sample_parse ''{"LED":null}'' = Some (JObject [(''LED'', JNull)]) \<and>
   decode sample_parse sample_checks ''{"LED":null}'' = Inl ZodError \<and>
   mqtt_on_message sample_parse sample_checks 5000 ''{"LED":null}'' sample_server =
     sample_server\<close>
  by (simp add: sample_decode mqtt_on_message_Inl) (simp add: sample_parse_def)

text \<open>
  Claim C9, as the schema implements it. For a payload whose two temperatures are each
  absent or null: when the indicator level is absent, validation succeeds and a reading
  is stored with both temperatures null and indicator level 0, so no field is required;
  when the indicator level is null, validation fails and the state is unchanged.
\<close>

theorem fieldless_message_stored:
  assumes "P m = Some data"
    and "get_property data ''suhuDHT'' = Inr dht" and "dht \<in> {None, Some JNull}"
    and "get_property data ''suhuLM35'' = Inr lm35" and "lm35 \<in> {None, Some JNull}"
    and "get_property data ''LED'' = Inr led"
  shows "(led = None \<longrightarrow>
           (\<exists>c. decode P ck m = Inr c) \<and>
           storage (mqtt_on_message P ck now m s) =
             (storage s)\<lparr>currentReadingId := currentReadingId (storage s) + 1,
                sensorReadings :=
                  Map_set (currentReadingId (storage s))
                    \<lparr>id_reading = currentReadingId (storage s), dhtTemperature = None,
                     lm35Temperature = None, ledLevel = 0, timestamp = now\<rparr>
                    (sensorReadings (storage s))\<rparr>) \<and>
         (led = Some JNull \<longrightarrow>
           decode P ck m = Inl ZodError \<and> mqtt_on_message P ck now m s = s)"
proof (intro conjI impI)
  assume led: "led = None"
  from parse_nullish_fields [OF assms(3) assms(5)]
  obtain a b where a: "a \<in> {Undefined, Null}" and b: "b \<in> {Undefined, Null}"
    and p: "insertSensorReadingSchema_parse ck dht lm35 None =
              Inr \<lparr>dhtTemperature_in = a, lm35Temperature_in = b, ledLevel_in = Undefined\<rparr>"
    by blast
  have d: "decode P ck m =
             Inr \<lparr>dhtTemperature_in = a, lm35Temperature_in = b, ledLevel_in = Undefined\<rparr>"
    using decode_fields [of P m data dht lm35 led ck, OF assms(1) assms(2) assms(4) assms(6)] p led
    by simp
  then show "\<exists>c. decode P ck m = Inr c" by blast
  show "storage (mqtt_on_message P ck now m s) =
             (storage s)\<lparr>currentReadingId := currentReadingId (storage s) + 1,
                sensorReadings :=
                  Map_set (currentReadingId (storage s))
                    \<lparr>id_reading = currentReadingId (storage s), dhtTemperature = None,
                     lm35Temperature = None, ledLevel = 0, timestamp = now\<rparr>
                    (sensorReadings (storage s))\<rparr>"
    unfolding mqtt_on_message_Inr [OF d] createSensorReading_nullish [OF a b]
    by (simp add: broadcast_eq)
next
  assume led: "led = Some JNull"
  show d: "decode P ck m = Inl ZodError"
    using decode_fields [of P m data dht lm35 led ck, OF assms(1) assms(2) assms(4) assms(6)] led
    by (simp add: parse_null_led)
  show "mqtt_on_message P ck now m s = s"
    using d by (rule mqtt_on_message_Inl)
qed

theorem fieldless_message_stored_witness:
  \<open>sample_parse ''{"suhuDHT":null,"suhuLM35":null}'' =
     Some (JObject [(''suhuDHT'', JNull), (''suhuLM35'', JNull)]) \<and>
   sensorReadings (storage (mqtt_on_message sample_parse sample_checks 5000
       ''{"suhuDHT":null,"suhuLM35":null}'' sample_server)) =
     sensorReadings sample_store @
       [(5, \<lparr>id_reading = 5, dhtTemperature = None, lm35Temperature = None, ledLevel = 0,
             timestamp = 5000\<rparr>)] \<and>
   sample_parse ''{"LED":null}'' = Some (JObject [(''LED'', JNull)]) \<and>
   mqtt_on_message sample_parse sample_checks 5000 ''{"LED":null}'' sample_server =
     sample_server\<close>
proof -
  have p1: \<open>sample_parse ''{"suhuDHT":null,"suhuLM35":null}'' =
     Some (JObject [(''suhuDHT'', JNull), (''suhuLM35'', JNull)])\<close>
    by (simp add: sample_parse_def)
  have p2: \<open>sample_parse ''{"LED":null}'' = Some (JObject [(''LED'', JNull)])\<close>
    by (simp add: sample_parse_def)
  have g1: "get_property (JObject [(''suhuDHT'', JNull), (''suhuLM35'', JNull)]) ''suhuDHT'' =
      Inr (Some JNull)"
    "get_property (JObject [(''suhuDHT'', JNull), (''suhuLM35'', JNull)]) ''suhuLM35'' =
      Inr (Some JNull)"
    "get_property (JObject [(''suhuDHT'', JNull), (''suhuLM35'', JNull)]) ''LED'' = Inr None"
    by simp_all
  have g2: "get_property (JObject [(''LED'', JNull)]) ''suhuDHT'' = Inr None"
    "get_property (JObject [(''LED'', JNull)]) ''suhuLM35'' = Inr None"
    "get_property (JObject [(''LED'', JNull)]) ''LED'' = Inr (Some JNull)"
    by simp_all
  have n: "Some JNull \<in> {None, Some JNull}" "None \<in> {None :: json option, Some JNull}"
    by simp_all
  have a: \<open>storage (mqtt_on_message sample_parse sample_checks 5000
       ''{"suhuDHT":null,"suhuLM35":null}'' sample_server) =
     (storage sample_server)\<lparr>currentReadingId := currentReadingId (storage sample_server) + 1,
        sensorReadings :=
          Map_set (currentReadingId (storage sample_server))
            \<lparr>id_reading = currentReadingId (storage sample_server), dhtTemperature = None,
             lm35Temperature = None, ledLevel = 0, timestamp = 5000\<rparr>
            (sensorReadings (storage sample_server))\<rparr>\<close>
    using fieldless_message_stored [of sample_parse
        \<open>''{"suhuDHT":null,"suhuLM35":null}''\<close> _ _ _ _ sample_checks 5000 sample_server,
        OF p1 g1(1) n(1) g1(2) n(1) g1(3)]
    by simp
  have b: \<open>mqtt_on_message sample_parse sample_checks 5000 ''{"LED":null}'' sample_server =
     sample_server\<close>
    using fieldless_message_stored [of sample_parse \<open>''{"LED":null}''\<close> _ _ _ _
        sample_checks 5000 sample_server, OF p2 g2(1) n(2) g2(2) n(2) g2(3)]
    by simp
  have st: "storage sample_server = sample_store" by (simp add: sample_server_def)
  show ?thesis
    using p1 p2 b unfolding a st by (simp add: sample_store_eq)
qed

end
